theory Spec2Isabelle
  imports Main "HOL-Library.AList"
begin

section \<open>Errors\<close>

text \<open>
  A thrown JavaScript error, as far as \<^verbatim>\<open>base.ts\<close> inspects it: \<^verbatim>\<open>error.code\<close> and
  \<^verbatim>\<open>error.message\<close>. A \<open>code\<close> that is absent or not a number is \<open>None\<close> (the source
  compares with \<^verbatim>\<open>===\<close>, so only the number itself matches); an absent message is
  \<open>None\<close>.
\<close>

record jserror =
  code :: "int option"
  message :: "string option"

section \<open>RequestQueue\<close>

text \<open>
  An operation handed to \<^verbatim>\<open>RequestQueue.add\<close> is a \<^verbatim>\<open>() => Promise<T>\<close>: it acts on the
  world outside the queue and either returns a value or throws.
\<close>

type_synonym ('w, 'a) request = "'w \<Rightarrow> (jserror + 'a) \<times> 'w"

text \<open>
  The closure that \<^verbatim>\<open>add\<close> pushes on the queue captures \<^verbatim>\<open>request\<close> and the
  \<^verbatim>\<open>resolve\<close>/\<^verbatim>\<open>reject\<close> pair of the promise \<^verbatim>\<open>add\<close> returns. The queue is private and
  \<^verbatim>\<open>add\<close> is its only producer, so a queue element is that closure: the captured request
  and the number of the captured promise.
\<close>

record ('w, 'a) task =
  pid :: nat
  request :: "('w, 'a) request"

text \<open>
  What an observer sees, in order: an operation is invoked (\<^verbatim>\<open>request()\<close> right after
  \<^verbatim>\<open>shift\<close>), a promise is fulfilled or rejected, the worker starts an
  \<^verbatim>\<open>exponentialBackoff\<close> sleep of so many milliseconds, or a \<^verbatim>\<open>randomDelay\<close> sleep.
\<close>

datatype 'a event =
  Invoked nat
  | Fulfilled nat 'a
  | Rejected nat jserror
  | Backoff nat
  | RandomDelay

text \<open>
  An activation of \<^verbatim>\<open>processQueue\<close> that passed its guard is suspended at one of the
  three \<^verbatim>\<open>await\<close>s of the loop.
\<close>

datatype ('w, 'a) worker =
  AwaitRequest "('w, 'a) task"
  | AwaitBackoff
  | AwaitRandomDelay

record ('w, 'a) rq =
  queue :: "('w, 'a) task list"
  processing :: bool
  workers :: "('w, 'a) worker list"
  world :: 'w
  promises :: "(jserror + 'a) option list"
  trace :: "'a event list"

definition init :: "'w \<Rightarrow> ('w, 'a) rq" where
  "init w = \<lparr>queue = [], processing = False, workers = [], world = w, promises = [], trace = []\<rparr>"

text \<open>\<^verbatim>\<open>resolve\<close> and \<^verbatim>\<open>reject\<close> settle a pending promise and do nothing to a settled one.\<close>

definition settle :: "nat \<Rightarrow> jserror + 'a \<Rightarrow> (jserror + 'a) option list \<Rightarrow> (jserror + 'a) option list" where
  "settle p r ps = (if p < length ps \<and> ps ! p = None then ps[p := Some r] else ps)"

text \<open>
  The body of the closure of \<^verbatim>\<open>add\<close> (lines 37 to 44): \<^verbatim>\<open>try { resolve(await request()) }
  catch (error) { reject(error) }\<close>. The first component is what the closure throws to
  whoever awaits it: both branches return normally.
\<close>

definition run_task :: "('w, 'a) task \<Rightarrow> ('w, 'a) rq \<Rightarrow> jserror option \<times> ('w, 'a) rq" where
  "run_task t s =
     (case request t (world s) of
        (Inr result, w) \<Rightarrow>
          (None, s\<lparr>world := w, promises := settle (pid t) (Inr result) (promises s),
                    trace := trace s @ [Fulfilled (pid t) result]\<rparr>)
      | (Inl error, w) \<Rightarrow>
          (None, s\<lparr>world := w, promises := settle (pid t) (Inl error) (promises s),
                    trace := trace s @ [Rejected (pid t) error]\<rparr>))"

text \<open>
  The loop test and the loop body up to \<^verbatim>\<open>await request()\<close> (lines 55 to 58), and the
  exit of the loop (line 67). \<open>None\<close>: the activation has ended.
\<close>

definition loop_head :: "('w, 'a) rq \<Rightarrow> ('w, 'a) worker option \<times> ('w, 'a) rq" where
  "loop_head s =
     (case queue s of
        [] \<Rightarrow> (None, s\<lparr>processing := False\<rparr>)
      | t # q \<Rightarrow> (Some (AwaitRequest t), s\<lparr>queue := q, trace := trace s @ [Invoked (pid t)]\<rparr>))"

text \<open>\<^verbatim>\<open>exponentialBackoff(retryCount)\<close> sleeps \<open>2 ^ retryCount * 1000\<close> milliseconds.\<close>

definition exponentialBackoff :: "nat \<Rightarrow> nat" where
  "exponentialBackoff retryCount = 2 ^ retryCount * 1000"

text \<open>
  A suspended activation continues when what it awaits has settled, and runs to its next
  \<^verbatim>\<open>await\<close>: after the request, the \<^verbatim>\<open>catch\<close> branch (lines 59 to 63) when the awaited
  closure threw, then \<^verbatim>\<open>randomDelay\<close>; after the delay, the loop test again.
\<close>

fun step_worker :: "('w, 'a) worker \<Rightarrow> ('w, 'a) rq \<Rightarrow> ('w, 'a) worker option \<times> ('w, 'a) rq" where
  "step_worker (AwaitRequest t) s =
     (case run_task t s of
        (None, s1) \<Rightarrow> (Some AwaitRandomDelay, s1\<lparr>trace := trace s1 @ [RandomDelay]\<rparr>)
      | (Some error, s1) \<Rightarrow>
          (let s2 = s1\<lparr>queue := t # queue s1\<rparr>
           in (Some AwaitBackoff,
               s2\<lparr>trace := trace s2 @ [Backoff (exponentialBackoff (length (queue s2)))]\<rparr>)))"
| "step_worker AwaitBackoff s = (Some AwaitRandomDelay, s\<lparr>trace := trace s @ [RandomDelay]\<rparr>)"
| "step_worker AwaitRandomDelay s = loop_head s"

text \<open>
  \<^verbatim>\<open>processQueue\<close> up to its first \<^verbatim>\<open>await\<close> (lines 49 to 58): the guard, the flag, and
  the first turn of the loop. An activation that passes the guard is a new worker.
\<close>

definition processQueue :: "('w, 'a) rq \<Rightarrow> ('w, 'a) rq" where
  "processQueue s =
     (if processing s \<or> queue s = [] then s
      else (case loop_head (s\<lparr>processing := True\<rparr>) of
              (None, s1) \<Rightarrow> s1
            | (Some k, s1) \<Rightarrow> s1\<lparr>workers := workers s1 @ [k]\<rparr>))"

text \<open>The \<open>i\<close>-th suspended activation continues; there is none when \<open>i\<close> is out of range.\<close>

definition resume :: "nat \<Rightarrow> ('w, 'a) rq \<Rightarrow> ('w, 'a) rq" where
  "resume i s =
     (if length (workers s) \<le> i then s
      else (case step_worker (workers s ! i) s of
              (None, s1) \<Rightarrow> s1\<lparr>workers := take i (workers s1) @ drop (Suc i) (workers s1)\<rparr>
            | (Some k, s1) \<Rightarrow> s1\<lparr>workers := (workers s1)[i := k]\<rparr>))"

text \<open>
  \<^verbatim>\<open>add\<close> (lines 35 to 47): a new promise, the closure pushed at the tail, and
  \<^verbatim>\<open>processQueue()\<close> called without \<^verbatim>\<open>await\<close>. The result is the new promise.
\<close>

definition add :: "('w, 'a) request \<Rightarrow> ('w, 'a) rq \<Rightarrow> nat \<times> ('w, 'a) rq" where
  "add req s =
     (let p = length (promises s);
          s1 = s\<lparr>promises := promises s @ [None]\<rparr>;
          s2 = s1\<lparr>queue := queue s1 @ [\<lparr>pid = p, request = req\<rparr>]\<rparr>
      in (p, processQueue s2))"

text \<open>
  JavaScript runs each piece of code between two \<^verbatim>\<open>await\<close>s to completion, so a run of
  the queue is a sequence of such pieces: a caller adds a request, or a suspended
  activation continues.
\<close>

datatype ('w, 'a) action =
  Add "('w, 'a) request"
  | Resume nat

fun exec :: "('w, 'a) action \<Rightarrow> ('w, 'a) rq \<Rightarrow> ('w, 'a) rq" where
  "exec (Add req) s = snd (add req s)"
| "exec (Resume i) s = resume i s"

definition run :: "('w, 'a) action list \<Rightarrow> ('w, 'a) rq \<Rightarrow> ('w, 'a) rq" where
  "run acts s = fold exec acts s"

fun added :: "('w, 'a) action list \<Rightarrow> ('w, 'a) request list" where
  "added [] = []"
| "added (Add req # acts) = req # added acts"
| "added (Resume i # acts) = added acts"

fun invoked :: "'a event list \<Rightarrow> nat list" where
  "invoked [] = []"
| "invoked (Invoked p # es) = p # invoked es"
| "invoked (e # es) = invoked es"

fun fulfilled :: "'a event list \<Rightarrow> nat list" where
  "fulfilled [] = []"
| "fulfilled (Fulfilled p v # es) = p # fulfilled es"
| "fulfilled (e # es) = fulfilled es"

fun rejected :: "'a event list \<Rightarrow> nat list" where
  "rejected [] = []"
| "rejected (Rejected p e # es) = p # rejected es"
| "rejected (e # es) = rejected es"

fun backoffs :: "'a event list \<Rightarrow> nat list" where
  "backoffs [] = []"
| "backoffs (Backoff d # es) = d # backoffs es"
| "backoffs (e # es) = backoffs es"


section \<open>ClientBase: data\<close>

text \<open>
  The \<^verbatim>\<open>Tweet\<close> type (lines 94 to 114). \<^verbatim>\<open>id\<close> and \<^verbatim>\<open>text\<close> are written \<open>tweet_id\<close> and
  \<open>tweet_text\<close>. \<^verbatim>\<open>conversationId\<close> is declared a string, but \<^verbatim>\<open>fetchHomeTimeline\<close>
  stores \<^verbatim>\<open>null\<close> there and \<^verbatim>\<open>populateTimeline\<close> tests for it, so it is optional here.
  The fields that no code of this file reads after the tweet is built (\<^verbatim>\<open>createdAt\<close>,
  \<^verbatim>\<open>timestamp\<close>, \<^verbatim>\<open>hashtags\<close>, \<^verbatim>\<open>mentions\<close>, \<^verbatim>\<open>photos\<close>, \<^verbatim>\<open>thread\<close>, \<^verbatim>\<open>videos\<close>) are left
  out.
\<close>

record Tweet =
  tweet_id :: string
  tweet_text :: string
  conversationId :: "string option"
  userId :: string
  inReplyToStatusId :: "string option"
  permanentUrl :: string
  username :: "string option"
  name :: "string option"
  urls :: "string list"

text \<open>What the remote API answers, as far as \<^verbatim>\<open>getTweet\<close> and \<^verbatim>\<open>fetchSearchTweets\<close> read it.\<close>

record UserV2 =
  user_id :: string
  user_username :: string
  user_name :: string

text \<open>
  \<open>entities_urls\<close>: \<open>None\<close> when the tweet has no \<^verbatim>\<open>entities\<close>, \<open>Some None\<close> when the
  entities have no \<^verbatim>\<open>urls\<close>. Every request asks for the expansion \<^verbatim>\<open>author_id\<close>, and the
  answer is taken to carry it.
\<close>

record TweetV2 =
  data_id :: string
  data_text :: string
  conversation_id :: "string option"
  author_id :: string
  in_reply_to_user_id :: "string option"
  entities_urls :: "string list option option"

record TweetResult =
  data :: TweetV2
  includes_users :: "UserV2 list option"

record SearchResult =
  found :: "TweetV2 list"
  found_users :: "UserV2 list option"

text \<open>
  A record of the store behind \<^verbatim>\<open>runtime.messageManager\<close>, with the fields
  \<^verbatim>\<open>populateTimeline\<close> writes (the constant \<^verbatim>\<open>embedding\<close> and \<^verbatim>\<open>createdAt\<close> apart). A UUID is
  the string \<^verbatim>\<open>stringToUuid\<close> returns.
\<close>

record Memory =
  m_id :: string
  m_userId :: string
  m_text :: string
  m_url :: string
  m_source :: string
  m_inReplyTo :: "string option"
  m_agentId :: string
  m_roomId :: string

text \<open>
  What a method of \<^verbatim>\<open>ClientBase\<close> does to the outside, in order: an invocation of the
  operation handed to \<^verbatim>\<open>executeWithTokenRefresh\<close>, a call of \<^verbatim>\<open>refreshTwitterToken\<close>, a
  sleep of so many milliseconds, a \<^verbatim>\<open>mkdir\<close> and a \<^verbatim>\<open>writeFile\<close> (path and content) that
  succeeded, \<^verbatim>\<open>tweetCache.set\<close>, and the calls to the runtime.
\<close>

datatype effect =
  Invoke
  | RefreshToken
  | Sleep nat
  | Mkdir string
  | WriteFile string string
  | CacheSet string
  | EnsureUserExists string "string option"
  | EnsureConnection string string "string option" "string option"
  | CreateMemory Memory

text \<open>
  The collaborators that are not code of this file: Node's \<^verbatim>\<open>path\<close> and \<^verbatim>\<open>glob\<close>, \<^verbatim>\<open>JSON\<close>,
  the database adapter, the OAuth2 endpoint, the remote API (each call acts on the
  outside world \<open>'w\<close> and may throw) and \<^verbatim>\<open>stringToUuid\<close> of the core package.
  \<open>refreshOAuth2Token\<close> stands for \<^verbatim>\<open>new TwitterApi({clientId, clientSecret})\<close> followed
  by \<^verbatim>\<open>refreshOAuth2Token\<close>; \<open>glob\<close> gets the pattern and the paths of the files that
  exist. \<^verbatim>\<open>JSON.stringify\<close> throws on a value it cannot write. The calls to the file
  system (\<open>glob\<close>, \<open>fs_mkdir\<close>, \<open>fs_writeFile\<close>, \<open>fs_readFile\<close>) are answered by the
  outside world, which may refuse them (a name too long, no permission, no space): a
  call that is let through acts on the files and directories of the client's state.
\<close>

record ('w, 'c) collab =
  module_dirname :: string
  path_join :: "string list \<Rightarrow> string"
  path_dirname :: "string \<Rightarrow> string"
  glob :: "string \<Rightarrow> string list \<Rightarrow> 'w \<Rightarrow> (jserror + string list) \<times> 'w"
  fs_mkdir :: "string \<Rightarrow> 'w \<Rightarrow> (jserror + unit) \<times> 'w"
  fs_writeFile :: "string \<Rightarrow> string \<Rightarrow> 'w \<Rightarrow> (jserror + unit) \<times> 'w"
  fs_readFile :: "string \<Rightarrow> 'w \<Rightarrow> (jserror + unit) \<times> 'w"
  stringify :: "Tweet \<Rightarrow> jserror + string"
  parse :: "string \<Rightarrow> jserror + Tweet"
  stringToUuid :: "string \<Rightarrow> string"
  getTwitterRefreshToken :: "string \<Rightarrow> 'w \<Rightarrow> (jserror + string) \<times> 'w"
  refreshOAuth2Token :: "string \<Rightarrow> 'w \<Rightarrow> (jserror + 'c \<times> string \<times> string) \<times> 'w"
  updateTwitterAccessToken :: "string \<Rightarrow> string \<Rightarrow> string \<Rightarrow> 'w \<Rightarrow> (jserror + unit) \<times> 'w"
  singleTweet :: "'c \<Rightarrow> string \<Rightarrow> 'w \<Rightarrow> (jserror + TweetResult) \<times> 'w"
  search :: "'c \<Rightarrow> string \<Rightarrow> nat \<Rightarrow> 'w \<Rightarrow> (jserror + SearchResult) \<times> 'w"

text \<open>
  The fields of a \<^verbatim>\<open>ClientBase\<close> and what it reaches: \<open>readyPromise\<close> is the reason
  \<^verbatim>\<open>readyPromise\<close> rejects with, if it does; \<open>static_twitterClient\<close> is
  \<^verbatim>\<open>ClientBase._twitterClient\<close>; \<open>agentId\<close> is \<^verbatim>\<open>runtime.agentId\<close>; \<open>files\<close> and \<open>dirs\<close>
  are the file system under the cache directory; \<open>timeline_cache\<close> is the parsed content
  of \<^verbatim>\<open>timeline_cache.json\<close>, if the file exists; \<open>memories\<close> is the record store;
  \<open>remote\<close> is the outside world the collaborators act on.
\<close>

record ('w, 'c) ClientBase =
  isReady :: bool
  readyPromise :: "jserror option"
  twitterClient :: 'c
  static_twitterClient :: "'c option"
  agentId :: string
  twitterUserId :: "string option"
  twitterUsername :: "string option"
  twitterAccessToken :: "string option"
  twitterRefreshToken :: "string option"
  tweetCache :: "string \<rightharpoonup> Tweet"
  files :: "(string \<times> string) list"
  dirs :: "string list"
  timeline_cache :: "Tweet list option"
  memories :: "Memory list"
  remote :: 'w
  effects :: "effect list"

section \<open>ClientBase: token refresh and retry\<close>

text \<open>\<^verbatim>\<open>s.includes(sub)\<close>: \<open>sub\<close> occurs in \<open>s\<close>.\<close>

primrec str_includes :: "string \<Rightarrow> string \<Rightarrow> bool" where
  "str_includes [] sub = (sub = [])"
| "str_includes (c # cs) sub = (take (length sub) (c # cs) = sub \<or> str_includes cs sub)"

text \<open>The two tests of \<^verbatim>\<open>executeWithTokenRefresh\<close> on a caught error (lines 214 to 217, 222).\<close>

definition credential_expired :: "jserror \<Rightarrow> bool" where
  "credential_expired error =
     (code error = Some 401 \<or>
      (case message error of None \<Rightarrow> False | Some m \<Rightarrow> m \<noteq> [] \<and> str_includes m ''token''))"

definition rate_limited :: "jserror \<Rightarrow> bool" where
  "rate_limited error = (code error = Some 429)"

text \<open>
  An operation handed to \<^verbatim>\<open>executeWithTokenRefresh\<close> calls the remote API through
  \<^verbatim>\<open>this.twitterClient\<close>, read when the operation runs.
\<close>

type_synonym ('w, 'c, 'a) operation = "'c \<Rightarrow> 'w \<Rightarrow> (jserror + 'a) \<times> 'w"

definition invoke :: "('w, 'c, 'a) operation \<Rightarrow> ('w, 'c) ClientBase \<Rightarrow> (jserror + 'a) \<times> ('w, 'c) ClientBase" where
  "invoke operation s =
     (case operation (twitterClient s) (remote s) of
        (r, w) \<Rightarrow> (r, s\<lparr>remote := w, effects := effects s @ [Invoke]\<rparr>))"

definition sleep :: "nat \<Rightarrow> ('w, 'c) ClientBase \<Rightarrow> ('w, 'c) ClientBase" where
  "sleep ms s = s\<lparr>effects := effects s @ [Sleep ms]\<rparr>"

text \<open>
  \<^verbatim>\<open>refreshTwitterToken\<close> (lines 170 to 205): three calls that may each throw; the
  \<^verbatim>\<open>catch\<close> logs and throws the same error again.
\<close>

definition refreshTwitterToken :: "('w, 'c) collab \<Rightarrow> ('w, 'c) ClientBase \<Rightarrow> (jserror + unit) \<times> ('w, 'c) ClientBase" where
  "refreshTwitterToken X s0 =
     (let s = s0\<lparr>effects := effects s0 @ [RefreshToken]\<rparr>
      in case getTwitterRefreshToken X (agentId s) (remote s) of
           (Inl error, w1) \<Rightarrow> (Inl error, s\<lparr>remote := w1\<rparr>)
         | (Inr existingRefreshToken, w1) \<Rightarrow>
             (case refreshOAuth2Token X existingRefreshToken w1 of
                (Inl error, w2) \<Rightarrow> (Inl error, s\<lparr>remote := w2\<rparr>)
              | (Inr (refreshedClient, accessToken, newRefreshToken), w2) \<Rightarrow>
                  (case updateTwitterAccessToken X (agentId s) accessToken newRefreshToken w2 of
                     (Inl error, w3) \<Rightarrow> (Inl error, s\<lparr>remote := w3\<rparr>)
                   | (Inr u, w3) \<Rightarrow>
                       (Inr (), s\<lparr>remote := w3,
                                  twitterClient := refreshedClient,
                                  static_twitterClient := Some refreshedClient,
                                  twitterAccessToken := Some accessToken,
                                  twitterRefreshToken := Some newRefreshToken\<rparr>))))"

text \<open>\<^verbatim>\<open>executeWithTokenRefresh\<close> (lines 207 to 232).\<close>

definition executeWithTokenRefresh :: "('w, 'c) collab \<Rightarrow> ('w, 'c, 'a) operation \<Rightarrow> ('w, 'c) ClientBase \<Rightarrow> (jserror + 'a) \<times> ('w, 'c) ClientBase" where
  "executeWithTokenRefresh X operation s =
     (case invoke operation s of
        (Inr result, s1) \<Rightarrow> (Inr result, s1)
      | (Inl error, s1) \<Rightarrow>
          if credential_expired error then
            (case refreshTwitterToken X s1 of
               (Inl error2, s2) \<Rightarrow> (Inl error2, s2)
             | (Inr u, s2) \<Rightarrow> invoke operation s2)
          else if rate_limited error then
            (let waitTime = 25 * 60 * 60 * 1000
             in invoke operation (sleep (waitTime + 1000) s1))
          else (Inl error, s1))"


section \<open>ClientBase: the tweet cache\<close>

text \<open>
  The errors the runtime throws in the code below. Only the message's text matters to
  \<^verbatim>\<open>executeWithTokenRefresh\<close>, and none of these contains \<^verbatim>\<open>token\<close>; the codes Node gives
  (\<^verbatim>\<open>ERR_INVALID_ARG_TYPE\<close>, \<^verbatim>\<open>ENOENT\<close>) are strings, not numbers.
\<close>

definition path_argument_error :: jserror where
  "path_argument_error = \<lparr>code = None, message = Some ''The path argument must be of type string''\<rparr>"





definition js_or :: "string option \<Rightarrow> string \<Rightarrow> string" where
  "js_or a b = (case a of None \<Rightarrow> b | Some x \<Rightarrow> if x = [] then b else x)"

text \<open>
  \<^verbatim>\<open>fs.promises.mkdir\<close> with \<^verbatim>\<open>recursive\<close>, \<^verbatim>\<open>fs.promises.writeFile\<close> and
  \<^verbatim>\<open>fs.promises.readFile\<close>, awaited: each throws when the file system refuses the call, and
  reading a file that is not there throws too.
\<close>

definition mkdir :: "('w, 'c) collab \<Rightarrow> string \<Rightarrow> ('w, 'c) ClientBase \<Rightarrow> (jserror + unit) \<times> ('w, 'c) ClientBase" where
  "mkdir X d s =
     (case fs_mkdir X d (remote s) of
        (Inl error, w) \<Rightarrow> (Inl error, s\<lparr>remote := w\<rparr>)
      | (Inr u, w) \<Rightarrow>
          (Inr (), s\<lparr>remote := w,
                     dirs := (if d \<in> set (dirs s) then dirs s else dirs s @ [d]),
                     effects := effects s @ [Mkdir d]\<rparr>))"

definition writeFile :: "('w, 'c) collab \<Rightarrow> string \<Rightarrow> string \<Rightarrow> ('w, 'c) ClientBase \<Rightarrow> (jserror + unit) \<times> ('w, 'c) ClientBase" where
  "writeFile X p content s =
     (case fs_writeFile X p content (remote s) of
        (Inl error, w) \<Rightarrow> (Inl error, s\<lparr>remote := w\<rparr>)
      | (Inr u, w) \<Rightarrow>
          (Inr (), s\<lparr>remote := w,
                     files := AList.update p content (files s),
                     effects := effects s @ [WriteFile p content]\<rparr>))"


text \<open>
  \<^verbatim>\<open>cacheTweet\<close> (lines 234 to 248). \<open>None\<close> is an undefined or null tweet.
  \<^verbatim>\<open>path.join\<close> throws a \<^verbatim>\<open>TypeError\<close> on an argument that is not a string. The
  directory is made first; then \<^verbatim>\<open>JSON.stringify(tweet, null, 2)\<close> is evaluated and the
  file written; the map is set last, so an error of any step before leaves it as it was.
\<close>

definition cacheTweet :: "('w, 'c) collab \<Rightarrow> Tweet option \<Rightarrow> ('w, 'c) ClientBase \<Rightarrow> (jserror + unit) \<times> ('w, 'c) ClientBase" where
  "cacheTweet X tweet s =
     (case tweet of
        None \<Rightarrow> (Inr (), s)
      | Some t \<Rightarrow>
          (case conversationId t of
             None \<Rightarrow> (Inl path_argument_error, s)
           | Some g \<Rightarrow>
               (let cacheDir = path_join X [module_dirname X, ''tweetcache'', g, tweet_id t @ ''.json'']
                in case mkdir X (path_dirname X cacheDir) s of
                     (Inl error, s1) \<Rightarrow> (Inl error, s1)
                   | (Inr u, s1) \<Rightarrow>
                       (case stringify X t of
                          Inl error \<Rightarrow> (Inl error, s1)
                        | Inr content \<Rightarrow>
                            (case writeFile X cacheDir content s1 of
                               (Inl error, s2) \<Rightarrow> (Inl error, s2)
                             | (Inr v, s2) \<Rightarrow>
                                 (Inr (), s2\<lparr>tweetCache := (tweetCache s2)(tweet_id t \<mapsto> t),
                                            effects := effects s2 @ [CacheSet (tweet_id t)]\<rparr>))))))"







section \<open>ClientBase: the timeline\<close>

text \<open>
  \<^verbatim>\<open>fetchSearchTweets\<close> (lines 548 to 593): the mapping of one found tweet, and the call.
  The source does not read its parameter \<^verbatim>\<open>searchMode\<close>.
\<close>

definition tweet_of_search :: "UserV2 list option \<Rightarrow> TweetV2 \<Rightarrow> Tweet" where
  "tweet_of_search users tweet =
     (let u = (case users of None \<Rightarrow> None | Some us \<Rightarrow> find (\<lambda>u. user_id u = author_id tweet) us)
      in \<lparr>tweet_id = data_id tweet,
          tweet_text = data_text tweet,
          conversationId = Some (js_or (conversation_id tweet) (data_id tweet)),
          userId = author_id tweet,
          inReplyToStatusId = in_reply_to_user_id tweet,
          permanentUrl = ''https://twitter.com/i/web/status/'' @ data_id tweet,
          username = map_option user_username u,
          name = map_option user_name u,
          urls = []\<rparr>)"

definition search_tweets :: "('w, 'c) collab \<Rightarrow> string \<Rightarrow> nat \<Rightarrow> ('w, 'c, Tweet list) operation" where
  "search_tweets X query maxTweets client w =
     (case search X client query maxTweets w of
        (Inl error, w1) \<Rightarrow> (Inl error, w1)
      | (Inr searchResults, w1) \<Rightarrow>
          (Inr (map (tweet_of_search (found_users searchResults)) (found searchResults)), w1))"

definition fetchSearchTweets :: "('w, 'c) collab \<Rightarrow> string \<Rightarrow> nat \<Rightarrow> ('w, 'c) ClientBase \<Rightarrow> (jserror + Tweet list) \<times> ('w, 'c) ClientBase" where
  "fetchSearchTweets X query maxTweets s = executeWithTokenRefresh X (search_tweets X query maxTweets) s"

text \<open>
  Modelled from the spec: the record store behind \<^verbatim>\<open>runtime.messageManager\<close> (core package,
  not in this file). The spec's ingestion collaborator answers a query by group ids with
  the existing records of those groups, and \<^verbatim>\<open>insertRecord\<close> answers \<^verbatim>\<open>ack\<close> or
  \<^verbatim>\<open>already-exists\<close>: \<open>getMemoriesByRoomIds\<close> returns the agent's records whose room is
  among the rooms asked for, \<open>getMemoryById\<close> the record with that id, and
  \<open>createMemory\<close> adds a record unless one with its id exists. Every call of
  \<open>createMemory\<close> is an effect, whatever the store answers.
\<close>

definition getMemoriesByRoomIds :: "string \<Rightarrow> string list \<Rightarrow> Memory list \<Rightarrow> Memory list" where
  "getMemoriesByRoomIds agent roomIds ms =
     filter (\<lambda>m. m_agentId m = agent \<and> m_roomId m \<in> set roomIds) ms"

definition getMemoryById :: "string \<Rightarrow> Memory list \<Rightarrow> Memory option" where
  "getMemoryById i ms = find (\<lambda>m. m_id m = i) ms"

definition createMemory :: "Memory \<Rightarrow> ('w, 'c) ClientBase \<Rightarrow> ('w, 'c) ClientBase" where
  "createMemory m s =
     s\<lparr>memories := (if getMemoryById (m_id m) (memories s) = None then memories s @ [m] else memories s),
       effects := effects s @ [CreateMemory m]\<rparr>"

text \<open>
  Modelled from the spec: \<^verbatim>\<open>runtime.ensureConnection\<close> and \<^verbatim>\<open>runtime.ensureUserExists\<close>
  (core package) are calls to the ingestion collaborator; only the call is recorded.
\<close>

definition ensureConnection :: "string \<Rightarrow> string \<Rightarrow> string option \<Rightarrow> string option \<Rightarrow> ('w, 'c) ClientBase \<Rightarrow> ('w, 'c) ClientBase" where
  "ensureConnection user room uname nm s = s\<lparr>effects := effects s @ [EnsureConnection user room uname nm]\<rparr>"

definition ensureUserExists :: "string \<Rightarrow> string option \<Rightarrow> ('w, 'c) ClientBase \<Rightarrow> ('w, 'c) ClientBase" where
  "ensureUserExists user uname s = s\<lparr>effects := effects s @ [EnsureUserExists user uname]\<rparr>"

text \<open>
  A string that may be null, inside a concatenation or a template: \<^verbatim>\<open>null + "-"\<close> is
  \<^verbatim>\<open>"null-"\<close>, and an undefined \<^verbatim>\<open>twitterUsername\<close> prints as \<^verbatim>\<open>undefined\<close>.
\<close>

definition null_str :: "string option \<Rightarrow> string" where
  "null_str x = (case x of None \<Rightarrow> ''null'' | Some v \<Rightarrow> v)"

definition undefined_str :: "string option \<Rightarrow> string" where
  "undefined_str x = (case x of None \<Rightarrow> ''undefined'' | Some v \<Rightarrow> v)"

text \<open>The values of a JavaScript \<^verbatim>\<open>Set\<close> filled from a list, in insertion order.\<close>

fun set_add_all :: "'a list \<Rightarrow> 'a list \<Rightarrow> 'a list" where
  "set_add_all acc [] = acc"
| "set_add_all acc (x # xs) = set_add_all (if x \<in> set acc then acc else acc @ [x]) xs"

text \<open>
  The body of the loop over the cached tweets to save (lines 639 to 697): the room, the
  user, the connection, the check by id (\<^verbatim>\<open>continue\<close> when the record exists), the record.
\<close>

definition save_cached_tweet :: "('w, 'c) collab \<Rightarrow> Tweet \<Rightarrow> ('w, 'c) ClientBase \<Rightarrow> ('w, 'c) ClientBase" where
  "save_cached_tweet X tweet s =
     (let roomId = stringToUuid X (case conversationId tweet of
                                     Some c \<Rightarrow> c
                                   | None \<Rightarrow> ''default-room-'' @ agentId s);
          tweetuserId = (if Some (userId tweet) = twitterUserId s then agentId s
                         else stringToUuid X (userId tweet));
          s1 = ensureConnection tweetuserId roomId (username tweet) (name tweet) s;
          inReplyTo = (case inReplyToStatusId tweet of
                         None \<Rightarrow> None
                       | Some r \<Rightarrow> if r = [] then None
                                  else Some (stringToUuid X (r @ ''-'' @ agentId s)))
      in case getMemoryById (stringToUuid X (tweet_id tweet @ ''-'' @ agentId s)) (memories s1) of
           Some memory \<Rightarrow> s1
         | None \<Rightarrow>
             createMemory
               \<lparr>m_id = stringToUuid X (tweet_id tweet @ ''-'' @ agentId s),
                m_userId = tweetuserId,
                m_text = tweet_text tweet,
                m_url = permanentUrl tweet,
                m_source = ''twitter'',
                m_inReplyTo = inReplyTo,
                m_agentId = agentId s,
                m_roomId = roomId\<rparr> s1)"

text \<open>The body of the loop over the new tweets to save (lines 768 to 805).\<close>

definition save_new_tweet :: "('w, 'c) collab \<Rightarrow> Tweet \<Rightarrow> ('w, 'c) ClientBase \<Rightarrow> ('w, 'c) ClientBase" where
  "save_new_tweet X tweet s =
     (let roomId = stringToUuid X (case conversationId tweet of
                                     Some c \<Rightarrow> c
                                   | None \<Rightarrow> ''default-room-'' @ agentId s);
          tweetuserId = (if Some (userId tweet) = twitterUserId s then agentId s
                         else stringToUuid X (userId tweet));
          s1 = ensureConnection tweetuserId roomId (username tweet) (name tweet) s;
          inReplyTo = (case inReplyToStatusId tweet of
                         None \<Rightarrow> None
                       | Some r \<Rightarrow> if r = [] then None else Some (stringToUuid X r))
      in createMemory
           \<lparr>m_id = stringToUuid X (tweet_id tweet @ ''-'' @ agentId s),
            m_userId = tweetuserId,
            m_text = tweet_text tweet,
            m_url = permanentUrl tweet,
            m_source = ''twitter'',
            m_inReplyTo = inReplyTo,
            m_agentId = agentId s,
            m_roomId = roomId\<rparr> s1)"

text \<open>
  The tweets the second half of \<^verbatim>\<open>populateTimeline\<close> saves (lines 722 to 755): the ids
  in a \<^verbatim>\<open>Set\<close>, their UUIDs with the agent's id, the records the store returns for these
  UUIDs taken as room ids, the set of the rooms of these records, and the filter.
\<close>

definition tweets_to_save :: "('w, 'c) collab \<Rightarrow> string \<Rightarrow> Memory list \<Rightarrow> Tweet list \<Rightarrow> Tweet list" where
  "tweets_to_save X agent ms allTweets =
     (let tweetIdsToCheck = set_add_all [] (map tweet_id allTweets);
          tweetUuids = map (\<lambda>i. stringToUuid X (i @ ''-'' @ agent)) tweetIdsToCheck;
          existingMemories = getMemoriesByRoomIds agent tweetUuids ms;
          existingMemoryIds = set (map m_roomId existingMemories)
      in filter (\<lambda>tweet. stringToUuid X (tweet_id tweet @ ''-'' @ agent) \<notin> existingMemoryIds) allTweets)"

text \<open>
  The second half of \<^verbatim>\<open>populateTimeline\<close> (lines 710 to 809): the search for mentions, the
  tweets to save, the loop, and the cache file written.
\<close>

definition populate_from_search :: "('w, 'c) collab \<Rightarrow> ('w, 'c) ClientBase \<Rightarrow> (jserror + unit) \<times> ('w, 'c) ClientBase" where
  "populate_from_search X s =
     (case fetchSearchTweets X (''@'' @ undefined_str (twitterUsername s)) 20 s of
        (Inl error, s1) \<Rightarrow> (Inl error, s1)
      | (Inr allTweets, s1) \<Rightarrow>
          (let tweetsToSave = tweets_to_save X (agentId s1) (memories s1) allTweets;
               s2 = ensureUserExists (agentId s1) (twitterUsername s1) s1;
               s3 = fold (save_new_tweet X) tweetsToSave s2
           in (Inr (), s3\<lparr>timeline_cache := Some allTweets\<rparr>)))"

text \<open>
  \<^verbatim>\<open>populateTimeline\<close> (lines 595 to 810). The first half (lines 600 to 708) runs when the
  cache file exists, and returns when a cached tweet's id is the id of a record the
  store returned.
\<close>

definition populateTimeline :: "('w, 'c) collab \<Rightarrow> ('w, 'c) ClientBase \<Rightarrow> (jserror + unit) \<times> ('w, 'c) ClientBase" where
  "populateTimeline X s =
     (case timeline_cache s of
        None \<Rightarrow> populate_from_search X s
      | Some cachedResults \<Rightarrow>
          (let existingMemories =
                 getMemoriesByRoomIds (agentId s)
                   (map (\<lambda>tweet. stringToUuid X (null_str (conversationId tweet) @ ''-'' @ agentId s))
                      cachedResults)
                   (memories s);
               existingMemoryIds = set (map m_id existingMemories);
               someCachedTweetsExist = (\<exists>tweet \<in> set cachedResults. tweet_id tweet \<in> existingMemoryIds)
           in if someCachedTweetsExist then
                (let tweetsToSave = filter (\<lambda>tweet. tweet_id tweet \<notin> existingMemoryIds) cachedResults
                 in (Inr (), fold (save_cached_tweet X) tweetsToSave s))
              else populate_from_search X s))"

section \<open>RequestQueue: what the proofs speak of\<close>

text \<open>
  The promises settled so far, in order; the promises of the operations in flight; and the
  first settlement of a promise in a trace.
\<close>

fun settled :: "'a event list \<Rightarrow> nat list" where
  "settled [] = []"
| "settled (Fulfilled p v # es) = p # settled es"
| "settled (Rejected p e # es) = p # settled es"
| "settled (e # es) = settled es"

fun inflight :: "('w, 'a) worker list \<Rightarrow> nat list" where
  "inflight [] = []"
| "inflight (AwaitRequest t # ks) = pid t # inflight ks"
| "inflight (k # ks) = inflight ks"

fun outcome :: "'a event list \<Rightarrow> nat \<Rightarrow> (jserror + 'a) option" where
  "outcome [] p = None"
| "outcome (Fulfilled q v # es) p = (if p = q then Some (Inr v) else outcome es p)"
| "outcome (Rejected q e # es) p = (if p = q then Some (Inl e) else outcome es p)"
| "outcome (e # es) p = outcome es p"

text \<open>
  The invariants of a run: one worker at most, and the flag tells whether there is one;
  the operations invoked so far and the tasks waiting are the promises in the order of
  their creation, everything invoked but the operation in flight has settled, no task
  waits while no worker runs, and no backoff sleep was made; the table of promises is
  what the trace says.
\<close>

definition inv_single :: "('w, 'a) rq \<Rightarrow> bool" where
  "inv_single s = (length (workers s) \<le> 1 \<and> (processing s = (workers s \<noteq> [])))"

definition inv_fifo :: "('w, 'a) rq \<Rightarrow> bool" where
  "inv_fifo s =
     (invoked (trace s) @ map pid (queue s) = [0..<length (promises s)] \<and>
      invoked (trace s) = settled (trace s) @ inflight (workers s) \<and>
      (workers s = [] \<longrightarrow> queue s = []) \<and>
      backoffs (trace s) = [])"

definition inv_promises :: "('w, 'a) rq \<Rightarrow> bool" where
  "inv_promises s = (promises s = map (outcome (trace s)) [0..<length (promises s)])"

definition inv_all :: "('w, 'a) rq \<Rightarrow> bool" where
  "inv_all s = (inv_single s \<and> inv_fifo s \<and> inv_promises s)"

section \<open>Example runs\<close>

text \<open>
  Concrete errors, operations and collaborators, for evaluating the definitions. The
  example world is a counter of the calls made to it.
\<close>

definition unauthorized :: jserror where
  "unauthorized = \<lparr>code = Some 401, message = Some ''Unauthorized''\<rparr>"

definition database_down :: jserror where
  "database_down = \<lparr>code = None, message = Some ''connection refused''\<rparr>"

definition too_many_requests :: jserror where
  "too_many_requests = \<lparr>code = Some 429, message = Some ''Too Many Requests''\<rparr>"

definition bucket_exhausted :: jserror where
  "bucket_exhausted = \<lparr>code = Some 429, message = Some ''Rate limit: token bucket exhausted''\<rparr>"


definition unparsable :: jserror where
  "unparsable = \<lparr>code = None, message = Some ''Unexpected end of JSON input''\<rparr>"

definition fails_first :: "(nat, nat) request" where
  "fails_first n = (if n = 0 then Inl database_down else Inr 1, Suc n)"

definition succeeds_with :: "nat \<Rightarrow> (nat, nat) request" where
  "succeeds_with v n = (Inr v, n)"

text \<open>
  An operation whose outcome depends on what ran before it: it appends a digit to the
  world and returns the new world.
\<close>

definition append_digit :: "nat \<Rightarrow> (nat, nat) request" where
  "append_digit d n = (Inr (n * 10 + d), n * 10 + d)"

definition three_adds :: "(nat, nat) action list" where
  "three_adds = [Add (append_digit 1), Add (append_digit 2), Resume 0, Add (append_digit 3),
     Resume 0, Resume 0, Resume 0, Resume 0, Resume 0]"

definition answer_42 :: TweetResult where
  "answer_42 =
     \<lparr>data = \<lparr>data_id = ''42'', data_text = ''hello'', conversation_id = None, author_id = ''7'',
               in_reply_to_user_id = None, entities_urls = Some (Some [])\<rparr>,
      includes_users = Some [\<lparr>user_id = ''7'', user_username = ''alice'', user_name = ''Alice''\<rparr>]\<rparr>"

definition tweet_42 :: Tweet where
  "tweet_42 =
     \<lparr>tweet_id = ''42'', tweet_text = ''hello'', conversationId = Some ''42'', userId = ''7'',
      inReplyToStatusId = None, permanentUrl = ''https://twitter.com/i/web/status/42'',
      username = Some ''alice'', name = Some ''Alice'', urls = []\<rparr>"

definition found_tweet :: "string \<Rightarrow> TweetV2" where
  "found_tweet i =
     \<lparr>data_id = i, data_text = ''hi'', conversation_id = None, author_id = ''7'',
      in_reply_to_user_id = None, entities_urls = None\<rparr>"

text \<open>
  The example \<^verbatim>\<open>glob\<close>: a star stands for any characters but the separator.
\<close>

fun star_match :: "string \<Rightarrow> string \<Rightarrow> bool" where
  "star_match [] s = (s = [])"
| "star_match (c # p) s =
     (if c = CHR ''*''
      then list_ex (\<lambda>k. star_match p (drop k s)) [0..<Suc (length (takeWhile (\<lambda>d. d \<noteq> CHR ''/'') s))]
      else (case s of [] \<Rightarrow> False | d # r \<Rightarrow> c = d \<and> star_match p r))"

text \<open>
  The example collaborators: the client \<^verbatim>\<open>client-0\<close> holds an expired token, so the remote
  API answers it with 401; the refresh succeeds and yields \<^verbatim>\<open>client-1\<close>; the search finds
  one tweet at the first call and three from then on; \<^verbatim>\<open>stringToUuid\<close> is the identity.
\<close>

definition example_collab :: "(nat, string) collab" where
  "example_collab =
     \<lparr>module_dirname = ''/app/src'',
      path_join = (\<lambda>segs. foldr (\<lambda>seg acc. if acc = [] then seg else seg @ ''/'' @ acc) segs []),
      path_dirname = (\<lambda>p. rev (drop 1 (dropWhile (\<lambda>c. c \<noteq> CHR ''/'') (rev p)))),
      glob = (\<lambda>pattern paths w. (Inr (filter (star_match pattern) paths), w)),
      fs_mkdir = (\<lambda>d w. (Inr (), w)),
      fs_writeFile = (\<lambda>p content w. (Inr (), w)),
      fs_readFile = (\<lambda>p w. (Inr (), w)),
      stringify = (\<lambda>t. Inr (tweet_id t @ '' '' @ tweet_text t)),
      parse = (\<lambda>c. if c = ''42 hello'' then Inr tweet_42 else Inl unparsable),
      stringToUuid = (\<lambda>x. x),
      getTwitterRefreshToken = (\<lambda>agent w. (Inr ''refresh-0'', w)),
      refreshOAuth2Token = (\<lambda>token w. (Inr (''client-1'', ''access-1'', ''refresh-1''), w)),
      updateTwitterAccessToken = (\<lambda>agent access rt w. (Inr (), w)),
      singleTweet = (\<lambda>client tweetId n.
         (if client = ''client-0'' then Inl unauthorized else Inr answer_42, Suc n)),
      search = (\<lambda>client query maxTweets n.
         (Inr \<lparr>found = (if n = 0 then [found_tweet ''100'']
                         else [found_tweet ''100'', found_tweet ''101'', found_tweet ''102'']),
                found_users = None\<rparr>, Suc n))\<rparr>"

definition example_client :: "(nat, string) ClientBase" where
  "example_client =
     \<lparr>isReady = True, readyPromise = None, twitterClient = ''client-0'',
      static_twitterClient = Some ''client-0'', agentId = ''agent'', twitterUserId = Some ''1'',
      twitterUsername = Some ''bot'', twitterAccessToken = Some ''access-0'',
      twitterRefreshToken = Some ''refresh-0'', tweetCache = Map.empty, files = [], dirs = [],
      timeline_cache = None, memories = [], remote = 0, effects = []\<rparr>"

text \<open>
  An operation that fails at its first invocation and returns 7 afterwards.
\<close>

definition expired_once :: "(nat, string, nat) operation" where
  "expired_once client n = (if n = 0 then Inl unauthorized else Inr 7, Suc n)"

definition limited_once :: "jserror \<Rightarrow> (nat, string, nat) operation" where
  "limited_once error client n = (if n = 0 then Inl error else Inr 7, Suc n)"


definition mention :: "string \<Rightarrow> Tweet" where
  "mention i =
     \<lparr>tweet_id = i, tweet_text = ''hi'', conversationId = Some i, userId = ''7'',
      inReplyToStatusId = None, permanentUrl = ''https://twitter.com/i/web/status/'' @ i,
      username = None, name = None, urls = []\<rparr>"

definition mention_memory :: "string \<Rightarrow> Memory" where
  "mention_memory i =
     \<lparr>m_id = i @ ''-agent'', m_userId = ''7'', m_text = ''hi'',
      m_url = ''https://twitter.com/i/web/status/'' @ i, m_source = ''twitter'',
      m_inReplyTo = None, m_agentId = ''agent'', m_roomId = i\<rparr>"

text \<open>
  The ids of the records handed to \<^verbatim>\<open>createMemory\<close>, in order.
\<close>

fun created :: "effect list \<Rightarrow> string list" where
  "created [] = []"
| "created (CreateMemory m # es) = m_id m # created es"
| "created (e # es) = created es"

section \<open>RequestQueue: the operations run one after another\<close>

text \<open>
  The reference the queue is compared with: the operations of a list, each run once on
  the world the one before it left; the outcomes in order, and the last world.
\<close>

fun run_seq :: "('w, 'a) request list \<Rightarrow> 'w \<Rightarrow> (jserror + 'a) list \<times> 'w" where
  "run_seq [] w = ([], w)"
| "run_seq (req # reqs) w =
     (case req w of (r, w1) \<Rightarrow> (case run_seq reqs w1 of (rs, w2) \<Rightarrow> (r # rs, w2)))"

text \<open>The promises settled in a trace, each with what it was settled with, in order.\<close>

fun settlements :: "'a event list \<Rightarrow> (nat \<times> (jserror + 'a)) list" where
  "settlements [] = []"
| "settlements (Fulfilled p v # es) = (p, Inr v) # settlements es"
| "settlements (Rejected p e # es) = (p, Inl e) # settlements es"
| "settlements (e # es) = settlements es"

text \<open>The closures whose operation is in flight.\<close>

fun inflight_tasks :: "('w, 'a) worker list \<Rightarrow> ('w, 'a) task list" where
  "inflight_tasks [] = []"
| "inflight_tasks (AwaitRequest t # ks) = t # inflight_tasks ks"
| "inflight_tasks (k # ks) = inflight_tasks ks"

text \<open>
  The invariant that ties a run to the requests added so far: the closures in flight and
  waiting hold the requests not yet settled, in the order of their adding; the
  settlements are the outcomes of the requests settled so far, run one after another from
  the first world; and the world is the one they left.
\<close>

definition inv_exec :: "('w, 'a) request list \<Rightarrow> 'w \<Rightarrow> ('w, 'a) rq \<Rightarrow> bool" where
  "inv_exec reqs w0 s =
     (length reqs = length (promises s) \<and>
      map request (inflight_tasks (workers s) @ queue s) = drop (length (settled (trace s))) reqs \<and>
      settlements (trace s) =
        zip [0..<length (settled (trace s))] (fst (run_seq (take (length (settled (trace s))) reqs) w0)) \<and>
      world s = snd (run_seq (take (length (settled (trace s))) reqs) w0))"

section \<open>ClientBase: calls one after another\<close>





section \<open>RequestQueue: proofs\<close>

lemmas queue_defs = run_def add_def processQueue_def loop_head_def resume_def run_task_def
  settle_def init_def Let_def

lemma invoked_append: "invoked (es @ fs) = invoked es @ invoked fs"
  by (induction es rule: invoked.induct) simp_all

lemma settled_append: "settled (es @ fs) = settled es @ settled fs"
  by (induction es rule: settled.induct) simp_all

lemma fulfilled_append: "fulfilled (es @ fs) = fulfilled es @ fulfilled fs"
  by (induction es rule: fulfilled.induct) simp_all

lemma rejected_append: "rejected (es @ fs) = rejected es @ rejected fs"
  by (induction es rule: rejected.induct) simp_all

lemma backoffs_append: "backoffs (es @ fs) = backoffs es @ backoffs fs"
  by (induction es rule: backoffs.induct) simp_all

lemma length_settle [simp]: "length (settle p r ps) = length ps"
  by (simp add: settle_def)

lemma run_task_None: "fst (run_task t s) = None"
  by (simp add: run_task_def split: prod.splits sum.splits)

lemma inv_single_init: "inv_single (init w)"
  by (simp add: inv_single_def init_def)

lemma inv_single_exec: "inv_single s \<Longrightarrow> inv_single (exec a s)"
proof (cases a)
  case (Add req)
  assume "inv_single s"
  then show ?thesis using Add
    by (auto simp: inv_single_def add_def processQueue_def loop_head_def Let_def split: list.splits)
next
  case (Resume i)
  assume i: "inv_single s"
  show ?thesis
  proof (cases "length (workers s) \<le> i")
    case True
    then show ?thesis using i Resume by (simp add: resume_def)
  next
    case False
    with i obtain k where k: "workers s = [k]" "i = 0"
      by (cases "workers s") (auto simp: inv_single_def)
    show ?thesis using i k Resume
      by (cases k) (auto simp: inv_single_def resume_def loop_head_def run_task_def Let_def split: list.splits prod.splits sum.splits)
  qed
qed

lemma inv_fifo_exec: "inv_single s \<Longrightarrow> inv_fifo s \<Longrightarrow> inv_fifo (exec a s)"
proof (cases a)
  case (Add req)
  assume "inv_single s" "inv_fifo s"
  then show ?thesis using Add
    by (auto simp: inv_single_def inv_fifo_def add_def processQueue_def loop_head_def Let_def
          invoked_append settled_append backoffs_append split: list.splits)
next
  case (Resume i)
  assume i: "inv_single s" "inv_fifo s"
  show ?thesis
  proof (cases "length (workers s) \<le> i")
    case True
    then show ?thesis using i Resume by (simp add: resume_def)
  next
    case False
    with i obtain k where k: "workers s = [k]" "i = 0"
      by (cases "workers s") (auto simp: inv_single_def)
    show ?thesis using i k Resume
      by (cases k) (auto simp: inv_single_def inv_fifo_def resume_def loop_head_def run_task_def Let_def
          invoked_append settled_append backoffs_append split: list.splits prod.splits sum.splits)
  qed
qed

lemma outcome_append:
  "outcome (es @ fs) p = (case outcome es p of Some r \<Rightarrow> Some r | None \<Rightarrow> outcome fs p)"
  by (induction es p rule: outcome.induct) simp_all

lemma outcome_None: "p \<notin> set (settled es) \<Longrightarrow> outcome es p = None"
  by (induction es p rule: outcome.induct) auto

lemma outcome_snoc_other:
  "outcome (es @ [Invoked q]) = outcome es"
  "outcome (es @ [RandomDelay]) = outcome es"
  "outcome (es @ [Backoff d]) = outcome es"
  by (auto simp: fun_eq_iff outcome_append split: option.splits)

lemma nth_map_upt_eq:
  assumes "xs = map f [0..<length xs]" "i < length xs"
  shows "xs ! i = f i"
proof -
  have "xs ! i = map f [0..<length xs] ! i"
    using arg_cong[OF assms(1), of "\<lambda>l. l ! i"] .
  then show ?thesis using assms(2) by simp
qed

lemma settle_outcome:
  assumes "ps = map (outcome es) [0..<length ps]" "q < length ps"
  shows "settle q r ps = map (\<lambda>p. case outcome es p of Some r' \<Rightarrow> Some r' | None \<Rightarrow> if p = q then Some r else None) [0..<length ps]"
proof (rule nth_equalityI)
  show "length (settle q r ps) = length (map (\<lambda>p. case outcome es p of Some r' \<Rightarrow> Some r' | None \<Rightarrow> if p = q then Some r else None) [0..<length ps])"
    by simp
next
  fix i assume "i < length (settle q r ps)"
  then have i: "i < length ps" by simp
  have nth: "\<And>j. j < length ps \<Longrightarrow> ps ! j = outcome es j"
    using assms(1) by (rule nth_map_upt_eq)
  show "settle q r ps ! i = map (\<lambda>p. case outcome es p of Some r' \<Rightarrow> Some r' | None \<Rightarrow> if p = q then Some r else None) [0..<length ps] ! i"
    using i assms(2) nth[of i] nth[of q]
    by (auto simp: settle_def nth_list_update split: option.splits)
qed

lemma inv_promises_exec: "inv_single s \<Longrightarrow> inv_fifo s \<Longrightarrow> inv_promises s \<Longrightarrow> inv_promises (exec a s)"
proof (cases a)
  case (Add req)
  assume i: "inv_single s" "inv_fifo s" "inv_promises s"
  have eq: "invoked (trace s) @ map pid (queue s) = [0..<length (promises s)]"
    and sub: "invoked (trace s) = settled (trace s) @ inflight (workers s)"
    using i(2) unfolding inv_fifo_def by blast+
  have "length (promises s) \<notin> set (invoked (trace s) @ map pid (queue s))"
    unfolding eq by simp
  then have "length (promises s) \<notin> set (settled (trace s))"
    unfolding sub by simp
  then have "outcome (trace s) (length (promises s)) = None"
    by (rule outcome_None)
  then show ?thesis using Add i(3)
    by (auto simp: inv_promises_def add_def processQueue_def loop_head_def Let_def outcome_snoc_other
          split: list.splits)
next
  case (Resume i)
  assume i: "inv_single s" "inv_fifo s" "inv_promises s"
  show ?thesis
  proof (cases "length (workers s) \<le> i")
    case True
    then show ?thesis using i Resume by (simp add: resume_def)
  next
    case False
    with i obtain k where k: "workers s = [k]" "i = 0"
      by (cases "workers s") (auto simp: inv_single_def)
    show ?thesis
    proof (cases k)
      case (AwaitRequest t)
      have eq: "invoked (trace s) @ map pid (queue s) = [0..<length (promises s)]"
        and sub: "invoked (trace s) = settled (trace s) @ inflight (workers s)"
        using i(2) unfolding inv_fifo_def by blast+
      have "pid t \<in> set (invoked (trace s) @ map pid (queue s))"
        unfolding sub using k AwaitRequest by simp
      then have lt: "pid t < length (promises s)"
        unfolding eq by simp
      have ps: "promises s = map (outcome (trace s)) [0..<length (promises s)]"
        using i(3) by (simp add: inv_promises_def)
      show ?thesis using k Resume AwaitRequest settle_outcome[OF ps lt]
        by (auto simp: inv_promises_def resume_def run_task_def outcome_append split: prod.splits sum.splits option.splits)
    next
      case AwaitBackoff
      then show ?thesis using i k Resume
        by (auto simp: inv_promises_def resume_def outcome_snoc_other)
    next
      case AwaitRandomDelay
      then show ?thesis using i k Resume
        by (auto simp: inv_promises_def resume_def loop_head_def outcome_snoc_other split: list.splits)
    qed
  qed
qed

lemma inv_all_init: "inv_all (init w)"
  by (simp add: inv_all_def inv_single_def inv_fifo_def inv_promises_def init_def)

lemma inv_all_run: "inv_all s \<Longrightarrow> inv_all (run acts s)"
  unfolding run_def
  by (induction acts arbitrary: s)
    (simp_all add: inv_all_def inv_single_exec inv_fifo_exec inv_promises_exec)

lemma length_promises_exec: "length (promises (exec a s)) = length (promises s) + length (added [a])"
proof (cases a)
  case (Add req)
  then show ?thesis
    by (auto simp: add_def processQueue_def loop_head_def Let_def split: list.splits)
next
  case (Resume i)
  then show ?thesis
    by (cases "workers s ! i")
       (auto simp: resume_def loop_head_def run_task_def split: list.splits prod.splits sum.splits)
qed

lemma added_Cons: "added (a # acts) = added [a] @ added acts"
  by (cases a) simp_all

lemma length_promises_run: "length (promises (run acts s)) = length (promises s) + length (added acts)"
  unfolding run_def
proof (induction acts arbitrary: s)
  case Nil
  then show ?case by simp
next
  case (Cons a acts)
  show ?case using Cons.IH[of "exec a s"] length_promises_exec[of a s] added_Cons[of a acts]
    by simp
qed

lemma fulfilled_settled: "rejected es = [] \<Longrightarrow> fulfilled es = settled es"
  by (induction es rule: settled.induct) simp_all

lemma outcome_fulfilled:
  "rejected es = [] \<Longrightarrow> p \<in> set (settled es) \<Longrightarrow> \<exists>v. outcome es p = Some (Inr v)"
  by (induction es p rule: outcome.induct) auto

lemma upt_append_eq:
  assumes "xs @ ys = [0..<n]"
  shows "xs = [0..<length xs]"
proof -
  have "xs = take (length xs) (xs @ ys)" by simp
  also have "\<dots> = take (length xs) [0..<n]" using assms by simp
  also have "\<dots> = [0..<min (length xs) n]" by (simp add: take_upt min_def)
  finally have "xs = [0..<min (length xs) n]" .
  moreover have "length xs \<le> n" using assms by (metis length_append length_upt le_add1 diff_zero)
  ultimately show ?thesis by (simp add: min_def)
qed

text \<open>
  Claim C3. After any sequence of calls of \<^verbatim>\<open>add\<close> and continuations of suspended
  activations, at most one activation of \<^verbatim>\<open>processQueue\<close> is inside the loop, the flag
  \<^verbatim>\<open>processing\<close> is true exactly when there is one, and \<^verbatim>\<open>processQueue\<close> called while the
  flag is true or the queue is empty returns at once and changes nothing.
\<close>

theorem single_drain_worker:
  "length (workers (run (acts :: ('w, 'a) action list) (init w))) \<le> 1 \<and>
   (processing (run acts (init w)) = (workers (run acts (init w)) \<noteq> [])) \<and>
   (\<forall>s :: ('w, 'a) rq. processing s \<or> queue s = [] \<longrightarrow> processQueue s = s)"
proof -
  have "inv_all (run acts (init w))"
    by (rule inv_all_run[OF inv_all_init])
  then show ?thesis
    by (simp add: inv_all_def inv_single_def processQueue_def)
qed

theorem single_drain_worker_witness:
  "processing (run [Add (succeeds_with 10)] (init 0)) \<and>
   processQueue (run [Add (succeeds_with 10)] (init 0)) = run [Add (succeeds_with 10)] (init 0) \<and>
   length (workers (run [Add (succeeds_with 10)] (init 0))) \<le> 1"
proof -
  have p: "processing (run [Add (succeeds_with 10)] (init 0))"
    by (simp add: queue_defs)
  show ?thesis
    using single_drain_worker[of "[Add (succeeds_with 10)]" 0] p by blast
qed

lemma settlements_append: "settlements (es @ fs) = settlements es @ settlements fs"
  by (induction es rule: settlements.induct) simp_all

lemma length_run_seq: "length (fst (run_seq reqs w)) = length reqs"
proof (induction reqs arbitrary: w)
  case Nil
  then show ?case by simp
next
  case (Cons req reqs)
  obtain r w1 where 1: "req w = (r, w1)" by (cases "req w")
  obtain rs w2 where 2: "run_seq reqs w1 = (rs, w2)" by (cases "run_seq reqs w1")
  show ?case using Cons.IH[of w1] 1 2 by simp
qed

lemma run_seq_snoc:
  "run_seq (reqs @ [req]) w =
     (case run_seq reqs w of (rs, w1) \<Rightarrow> (case req w1 of (r, w2) \<Rightarrow> (rs @ [r], w2)))"
proof (induction reqs arbitrary: w)
  case Nil
  then show ?case by (simp split: prod.splits)
next
  case (Cons a reqs)
  obtain r w1 where 1: "a w = (r, w1)" by (cases "a w")
  obtain rs w2 where 2: "run_seq reqs w1 = (rs, w2)" by (cases "run_seq reqs w1")
  obtain r' w3 where 3: "req w2 = (r', w3)" by (cases "req w2")
  show ?case using Cons.IH[of w1] 1 2 3 by simp
qed

lemma run_seq_take: "fst (run_seq (take j reqs) w) = take j (fst (run_seq reqs w))"
proof (induction reqs arbitrary: j w)
  case Nil
  then show ?case by simp
next
  case (Cons req reqs)
  obtain r w1 where 1: "req w = (r, w1)" by (cases "req w")
  obtain rs w2 where 2: "run_seq reqs w1 = (rs, w2)" by (cases "run_seq reqs w1")
  show ?case
  proof (cases j)
    case 0
    then show ?thesis by simp
  next
    case (Suc k)
    obtain rs' w3 where 3: "run_seq (take k reqs) w1 = (rs', w3)" by (cases "run_seq (take k reqs) w1")
    show ?thesis using Cons.IH[of k w1] 1 2 3 Suc by simp
  qed
qed

lemma inflight_pids: "inflight ks = map pid (inflight_tasks ks)"
  by (induction ks rule: inflight_tasks.induct) simp_all

lemma inv_exec_init: "inv_exec [] w (init w)"
  by (simp add: inv_exec_def init_def)

lemma inv_exec_exec:
  assumes a: "inv_all s" and e: "inv_exec reqs w0 s"
  shows "inv_exec (reqs @ added [a]) w0 (exec a s)"
proof -
  define j where "j = length (settled (trace s))"
  have single: "length (workers s) \<le> 1" "processing s = (workers s \<noteq> [])"
    using a by (simp_all add: inv_all_def inv_single_def)
  have eq: "invoked (trace s) @ map pid (queue s) = [0..<length (promises s)]"
    and sub: "invoked (trace s) = settled (trace s) @ inflight (workers s)"
    and idle: "workers s = [] \<longrightarrow> queue s = []"
    using a unfolding inv_all_def inv_fifo_def by blast+
  have n: "length reqs = length (promises s)"
    and q: "map request (inflight_tasks (workers s) @ queue s) = drop j reqs"
    and st: "settlements (trace s) = zip [0..<j] (fst (run_seq (take j reqs) w0))"
    and w: "world s = snd (run_seq (take j reqs) w0)"
    using e unfolding inv_exec_def j_def by blast+
  have all: "settled (trace s) @ inflight (workers s) @ map pid (queue s) = [0..<length reqs]"
    using eq sub n by simp
  have jn: "j \<le> length reqs"
    using arg_cong[OF all, of length] by (simp add: j_def)
  show ?thesis
  proof (cases a)
    case (Add req)
    show ?thesis
    proof (cases "processing s")
      case True
      then show ?thesis using Add n q st w jn
        by (simp add: inv_exec_def add_def processQueue_def Let_def j_def)
    next
      case False
      then have "workers s = []" "queue s = []" using single idle by simp_all
      then show ?thesis using Add False n q st w jn
        by (simp add: inv_exec_def add_def processQueue_def loop_head_def Let_def j_def settled_append
            settlements_append)
    qed
  next
    case (Resume i)
    show ?thesis
    proof (cases "length (workers s) \<le> i")
      case True
      then show ?thesis using Resume e by (simp add: resume_def)
    next
      case False
      with single obtain k where k: "workers s = [k]" "i = 0"
        by (cases "workers s") auto
      show ?thesis
      proof (cases k)
        case (AwaitRequest t)
        have q': "request t # map request (queue s) = drop j reqs"
          using q k AwaitRequest by simp
        then have jlt: "j < length reqs"
          by (metis drop_eq_Nil linorder_not_le list.distinct(1))
        have rt: "request t = reqs ! j" and rest: "map request (queue s) = drop (Suc j) reqs"
          using q' jlt by (simp_all add: Cons_nth_drop_Suc [symmetric])
        have "settled (trace s) @ [pid t] = [0..<length (settled (trace s) @ [pid t])]"
          using upt_append_eq[of "settled (trace s) @ [pid t]" "map pid (queue s)" "length reqs"] all k AwaitRequest
          by simp
        then have "settled (trace s) @ [pid t] = [0..<j] @ [j]"
          by (simp add: j_def)
        then have pt: "pid t = j" by simp
        obtain rs w1 where rs: "run_seq (take j reqs) w0 = (rs, w1)"
          by (cases "run_seq (take j reqs) w0")
        have lrs: "length rs = j"
          using length_run_seq[of "take j reqs" w0] rs jn by simp
        have w1: "world s = w1" using w rs by simp
        obtain r w2 where r: "request t (world s) = (r, w2)" by (cases "request t (world s)")
        have tk: "take (Suc j) reqs = take j reqs @ [request t]"
          using jlt rt by (simp add: take_Suc_conv_app_nth)
        have next_run: "run_seq (take (Suc j) reqs) w0 = (rs @ [r], w2)"
          using rs r w1 by (simp add: tk run_seq_snoc)
        have zp: "zip [0..<Suc j] (rs @ [r]) = zip [0..<j] rs @ [(j, r)]"
          using lrs by simp
        have st': "settlements (trace s) = zip [0..<j] rs" using st rs by simp
        show ?thesis
          using Resume k AwaitRequest r n rest st' next_run zp pt
          by (cases r)
             (simp_all add: inv_exec_def resume_def run_task_def settled_append settlements_append
                j_def [symmetric])
      next
        case AwaitBackoff
        then show ?thesis using Resume k e
          by (simp add: inv_exec_def resume_def settled_append settlements_append)
      next
        case AwaitRandomDelay
        then show ?thesis using Resume k e
          by (auto simp: inv_exec_def resume_def loop_head_def settled_append settlements_append
              split: list.splits)
      qed
    qed
  qed
qed

lemma inv_exec_run:
  "inv_all s \<Longrightarrow> inv_exec reqs w0 s \<Longrightarrow> inv_exec (reqs @ added acts) w0 (run acts s)"
  unfolding run_def
proof (induction acts arbitrary: s reqs)
  case Nil
  then show ?case by simp
next
  case (Cons a acts)
  have 1: "inv_all (exec a s)"
    using Cons.prems(1) by (simp add: inv_all_def inv_single_exec inv_fifo_exec inv_promises_exec)
  have 2: "inv_exec (reqs @ added [a]) w0 (exec a s)"
    by (rule inv_exec_exec[OF Cons.prems])
  show ?case using Cons.IH[OF 1 2] added_Cons[of a acts] by simp
qed

lemma zip_take_right: "length xs = j \<Longrightarrow> zip xs (take j ys) = zip xs ys"
proof -
  assume l: "length xs = j"
  have "zip xs (take j ys) = zip (take j xs) (take j ys)" using l by simp
  also have "\<dots> = take j (zip xs ys)" by (simp add: take_zip)
  also have "\<dots> = zip xs ys" using l by simp
  finally show ?thesis .
qed

lemma map_of_zip_upt:
  assumes "p < j" "j \<le> length rs"
  shows "map_of (zip [0..<j] rs) p = Some (rs ! p)"
proof -
  have "map_of (zip [0..<j] (take j rs)) ([0..<j] ! p) = Some (take j rs ! p)"
    using assms by (intro map_of_zip_nth) simp_all
  then show ?thesis using assms by (simp add: zip_take_right)
qed

lemma settled_settlements: "settled es = map fst (settlements es)"
  by (induction es rule: settlements.induct) simp_all

lemma outcome_settlements: "outcome es p = map_of (settlements es) p"
  by (induction es p rule: outcome.induct) simp_all

text \<open>
  Claim C2. In a run in which no operation has failed, the promise \<^verbatim>\<open>add\<close> returns to
  its \<open>k\<close>-th caller is number \<open>k\<close>, the operations are invoked in the order of their
  enqueueing, and the promises are fulfilled in that same order. The operations that
  have completed are exactly the first ones added, each run once on the world the one
  before it left: the world is the one they leave, and promise \<open>k\<close> holds the outcome of
  the \<open>k\<close>-th operation added. The closures in flight and waiting hold the remaining
  operations, in order. Once the worker has ended, every operation has run and every
  promise is fulfilled with its result.
\<close>

theorem fifo_order:
  assumes "rejected (trace (run acts (init w0))) = []"
  shows "fst (add req (run acts (init w0))) = length (added acts) \<and>
         invoked (trace (run acts (init w0))) = [0..<length (invoked (trace (run acts (init w0))))] \<and>
         fulfilled (trace (run acts (init w0))) = [0..<length (fulfilled (trace (run acts (init w0))))] \<and>
         length (fulfilled (trace (run acts (init w0)))) \<le> length (invoked (trace (run acts (init w0)))) \<and>
         length (invoked (trace (run acts (init w0)))) \<le> length (added acts) \<and>
         settlements (trace (run acts (init w0))) =
           zip [0..<length (fulfilled (trace (run acts (init w0))))] (fst (run_seq (added acts) w0)) \<and>
         world (run acts (init w0)) =
           snd (run_seq (take (length (fulfilled (trace (run acts (init w0))))) (added acts)) w0) \<and>
         map request (inflight_tasks (workers (run acts (init w0))) @ queue (run acts (init w0))) =
           drop (length (fulfilled (trace (run acts (init w0))))) (added acts) \<and>
         (\<forall>p < length (fulfilled (trace (run acts (init w0)))).
            promises (run acts (init w0)) ! p = Some (fst (run_seq (added acts) w0) ! p) \<and>
            (\<exists>v. fst (run_seq (added acts) w0) ! p = Inr v)) \<and>
         (workers (run acts (init w0)) = [] \<longrightarrow>
            fulfilled (trace (run acts (init w0))) = [0..<length (added acts)] \<and>
            world (run acts (init w0)) = snd (run_seq (added acts) w0) \<and>
            promises (run acts (init w0)) = map Some (fst (run_seq (added acts) w0)) \<and>
            (\<forall>p < length (added acts). \<exists>v. promises (run acts (init w0)) ! p = Some (Inr v)))"
proof -
  define s where "s = run acts (init w0)"
  define j where "j = length (fulfilled (trace s))"
  define reqs where "reqs = added acts"
  define rs where "rs = fst (run_seq reqs w0)"
  have rej: "rejected (trace s) = []" using assms by (simp add: s_def)
  have all: "inv_all s" unfolding s_def by (rule inv_all_run[OF inv_all_init])
  have ex: "inv_exec reqs w0 s"
    unfolding s_def reqs_def
    using inv_exec_run[where s = "init w0" and reqs = "[]" and ?w0.0 = w0 and acts = acts,
        OF inv_all_init inv_exec_init] by simp
  have n: "length (promises s) = length reqs"
    using ex by (simp add: inv_exec_def)
  have eq: "invoked (trace s) @ map pid (queue s) = [0..<length (promises s)]"
    and sub: "invoked (trace s) = settled (trace s) @ inflight (workers s)"
    and idle: "workers s = [] \<longrightarrow> queue s = []"
    using all unfolding inv_all_def inv_fifo_def by blast+
  have ps: "promises s = map (outcome (trace s)) [0..<length (promises s)]"
    using all by (simp add: inv_all_def inv_promises_def)
  have ful: "fulfilled (trace s) = settled (trace s)" by (rule fulfilled_settled[OF rej])
  have js: "length (settled (trace s)) = j" by (simp add: j_def ful)
  have q: "map request (inflight_tasks (workers s) @ queue s) = drop j reqs"
    and st0: "settlements (trace s) = zip [0..<j] (fst (run_seq (take j reqs) w0))"
    and w: "world s = snd (run_seq (take j reqs) w0)"
    using ex unfolding inv_exec_def js by blast+
  have jn: "j \<le> length reqs"
    using arg_cong[OF eq, of length] sub n js by simp
  have lrs: "length rs = length reqs" by (simp add: rs_def length_run_seq)
  have st: "settlements (trace s) = zip [0..<j] rs"
    using st0 by (simp add: run_seq_take rs_def [symmetric] zip_take_right)
  have 0: "fst (add req s) = length reqs"
    using n by (simp add: add_def Let_def)
  have 1: "invoked (trace s) = [0..<length (invoked (trace s))]"
    by (rule upt_append_eq[OF eq])
  have 2: "fulfilled (trace s) = [0..<j]"
    using upt_append_eq[of "settled (trace s)" "inflight (workers s) @ map pid (queue s)" "length (promises s)"]
      eq sub ful js by simp
  have 3: "j \<le> length (invoked (trace s))"
    using sub js by simp
  have 4: "length (invoked (trace s)) \<le> length reqs"
    using arg_cong[OF eq, of length] n by simp
  have 5: "promises s ! p = Some (rs ! p) \<and> (\<exists>v. rs ! p = Inr v)" if "p < j" for p
  proof -
    have pn: "p < length (promises s)" using that jn n by simp
    have "promises s ! p = outcome (trace s) p"
      using nth_map_upt_eq[OF ps pn] .
    also have "\<dots> = map_of (zip [0..<j] rs) p"
      by (simp add: outcome_settlements st)
    also have "\<dots> = Some (rs ! p)"
      using that jn lrs by (intro map_of_zip_upt) simp_all
    finally have a: "promises s ! p = Some (rs ! p)" .
    have "p \<in> set (settled (trace s))" using 2 ful that by simp
    then obtain v where "outcome (trace s) p = Some (Inr v)"
      using outcome_fulfilled[OF rej] by blast
    then have "promises s ! p = Some (Inr v)"
      using nth_map_upt_eq[OF ps pn] by simp
    then show ?thesis using a by simp
  qed
  have 6: "j = length reqs" if "workers s = []"
    using that arg_cong[OF eq, of length] sub idle n js by simp
  have 7: "promises s = map Some rs" if "workers s = []"
  proof (rule nth_equalityI)
    show "length (promises s) = length (map Some rs)" using n lrs by simp
  next
    fix p assume "p < length (promises s)"
    then have "p < j" using 6[OF that] n by simp
    then show "promises s ! p = map Some rs ! p"
      using 5[of p] jn lrs by simp
  qed
  have 8: "world s = snd (run_seq reqs w0)" if "workers s = []"
    using w 6[OF that] by simp
  have 9: "\<exists>v. promises s ! p = Some (Inr v)" if "workers s = []" "p < length reqs" for p
    using 5[of p] 6[OF that(1)] that(2) by auto
  have 10: "fulfilled (trace s) = [0..<length reqs]" if "workers s = []"
    using 2 6[OF that] by simp
  have 11: "length (fulfilled (trace s)) \<le> length (invoked (trace s))"
    using 3 by (simp add: j_def)
  have 12: "fulfilled (trace s) = [0..<length (fulfilled (trace s))]"
    using 2 by (simp add: j_def)
  have "fst (add req s) = length reqs \<and>
         invoked (trace s) = [0..<length (invoked (trace s))] \<and>
         fulfilled (trace s) = [0..<length (fulfilled (trace s))] \<and>
         length (fulfilled (trace s)) \<le> length (invoked (trace s)) \<and>
         length (invoked (trace s)) \<le> length reqs \<and>
         settlements (trace s) = zip [0..<j] rs \<and>
         world s = snd (run_seq (take j reqs) w0) \<and>
         map request (inflight_tasks (workers s) @ queue s) = drop j reqs \<and>
         (\<forall>p < j. promises s ! p = Some (rs ! p) \<and> (\<exists>v. rs ! p = Inr v)) \<and>
         (workers s = [] \<longrightarrow>
            fulfilled (trace s) = [0..<length reqs] \<and>
            world s = snd (run_seq reqs w0) \<and>
            promises s = map Some rs \<and>
            (\<forall>p < length reqs. \<exists>v. promises s ! p = Some (Inr v)))"
    using 0 1 12 11 4 st w q 5 10 8 7 9 by blast
  then show ?thesis
    unfolding s_def reqs_def rs_def j_def .
qed

lemma three_adds_run:
  "trace (run three_adds (init 0)) =
     [Invoked 0, Fulfilled 0 1, RandomDelay, Invoked 1, Fulfilled 1 12, RandomDelay,
      Invoked 2, Fulfilled 2 123, RandomDelay]"
  "workers (run three_adds (init 0)) = []"
  by (simp_all add: queue_defs three_adds_def append_digit_def)

theorem fifo_order_witness:
  "rejected (trace (run three_adds (init 0))) = [] \<and>
   workers (run three_adds (init 0)) = [] \<and>
   fulfilled (trace (run three_adds (init 0))) = [0, 1, 2] \<and>
   world (run three_adds (init 0)) = 123 \<and>
   promises (run three_adds (init 0)) = [Some (Inr 1), Some (Inr 12), Some (Inr 123)]"
proof -
  have r: "rejected (trace (run three_adds (init 0))) = []"
    by (simp add: three_adds_run)
  have n: "added three_adds = [append_digit 1, append_digit 2, append_digit 3]"
    by (simp add: three_adds_def)
  have u: "[0..<3] = [0, 1, 2::nat]" by (simp add: upt_rec)
  have s: "run_seq [append_digit 1, append_digit 2, append_digit 3] 0 =
             ([Inr 1, Inr 12, Inr 123], 123)"
    by (simp add: append_digit_def)
  show ?thesis
    using fifo_order[OF r, of "append_digit 0"] r three_adds_run(2) u
    unfolding n s by (simp add: append_digit_def)
qed

text \<open>
  Claim C1. Task 0 fails at its first attempt and task 1 is enqueued after it. The
  closure of \<^verbatim>\<open>add\<close> catches the failure and rejects the promise, so the \<^verbatim>\<open>catch\<close> of
  \<^verbatim>\<open>processQueue\<close> never runs: task 0 is attempted once (the world counts one attempt),
  task 1 is invoked after one \<^verbatim>\<open>randomDelay\<close>, and there is no \<^verbatim>\<open>exponentialBackoff\<close>.
\<close>

theorem failed_task_is_not_retried:
  "trace (run [Add fails_first, Add (succeeds_with 2), Resume 0, Resume 0, Resume 0, Resume 0] (init 0)) =
     [Invoked 0, Rejected 0 database_down, RandomDelay, Invoked 1, Fulfilled 1 2, RandomDelay] \<and>
   promises (run [Add fails_first, Add (succeeds_with 2), Resume 0, Resume 0, Resume 0, Resume 0] (init 0)) =
     [Some (Inl database_down), Some (Inr 2)] \<and>
   world (run [Add fails_first, Add (succeeds_with 2), Resume 0, Resume 0, Resume 0, Resume 0] (init 0)) = 1 \<and>
   queue (run [Add fails_first, Add (succeeds_with 2), Resume 0, Resume 0, Resume 0, Resume 0] (init 0)) = [] \<and>
   \<not> processing (run [Add fails_first, Add (succeeds_with 2), Resume 0, Resume 0, Resume 0, Resume 0] (init 0))"
  by (simp add: queue_defs fails_first_def succeeds_with_def)

text \<open>
  In no run at all is there a backoff sleep, and no operation is invoked twice.
\<close>

lemma retry_branch_unreachable:
  "backoffs (trace (run acts (init w))) = [] \<and> distinct (invoked (trace (run acts (init w))))"
proof -
  have a: "inv_all (run acts (init w))" by (rule inv_all_run[OF inv_all_init])
  then have "backoffs (trace (run acts (init w))) = []"
    by (simp add: inv_all_def inv_fifo_def)
  moreover have "invoked (trace (run acts (init w))) = [0..<length (invoked (trace (run acts (init w))))]"
    using a upt_append_eq unfolding inv_all_def inv_fifo_def by blast
  then have "distinct (invoked (trace (run acts (init w))))"
    by (metis distinct_upt)
  ultimately show ?thesis by simp
qed

section \<open>ClientBase: proofs about token refresh and retry\<close>

lemma refresh_effects:
  "effects (snd (refreshTwitterToken X s)) = effects s @ [RefreshToken]"
  by (simp add: refreshTwitterToken_def Let_def split: prod.splits sum.splits)

text \<open>
  Claim C4, amended. When the first invocation fails with a credential-expired error,
  \<^verbatim>\<open>refreshTwitterToken\<close> is called once. If it succeeds, the operation is invoked once
  more on the refreshed client and its outcome \<open>r\<close>, the value or the second error, is the
  outcome of \<^verbatim>\<open>executeWithTokenRefresh\<close>: two invocations and one refresh, nothing more.
  If it fails, its error is the outcome, and the operation is not invoked again: one
  invocation and one refresh.
\<close>

theorem refresh_once:
  assumes "operation (twitterClient s) (remote s) = (Inl e, w1)"
    and "credential_expired e"
    and "refreshTwitterToken X (s\<lparr>remote := w1, effects := effects s @ [Invoke]\<rparr>) = (rr, s2)"
    and "operation (twitterClient s2) (remote s2) = (r, w3)"
  shows "effects s2 = effects s @ [Invoke, RefreshToken] \<and>
         (\<forall>u. rr = Inr u \<longrightarrow>
            executeWithTokenRefresh X operation s =
              (r, s2\<lparr>remote := w3, effects := effects s @ [Invoke, RefreshToken, Invoke]\<rparr>)) \<and>
         (\<forall>e2. rr = Inl e2 \<longrightarrow> executeWithTokenRefresh X operation s = (Inl e2, s2))"
proof -
  have "effects s2 = (effects s @ [Invoke]) @ [RefreshToken]"
    using refresh_effects[of X "s\<lparr>remote := w1, effects := effects s @ [Invoke]\<rparr>"] assms(3)
    by simp
  then show ?thesis using assms
    by (simp add: executeWithTokenRefresh_def invoke_def)
qed

lemma ce_unauth: "credential_expired unauthorized"
  by (simp add: credential_expired_def unauthorized_def)

theorem refresh_once_witness:
  "fst (executeWithTokenRefresh example_collab expired_once example_client) = Inr 7 \<and>
   effects (snd (executeWithTokenRefresh example_collab expired_once example_client)) =
     [Invoke, RefreshToken, Invoke] \<and>
   executeWithTokenRefresh (example_collab\<lparr>getTwitterRefreshToken := \<lambda>agent w. (Inl database_down, w)\<rparr>)
     expired_once example_client =
     (Inl database_down, example_client\<lparr>remote := 1, effects := [Invoke, RefreshToken]\<rparr>)"
proof -
  have 1: "expired_once (twitterClient example_client) (remote example_client) = (Inl unauthorized, 1)"
    by (simp add: expired_once_def example_client_def)
  have 3: "refreshTwitterToken example_collab (example_client\<lparr>remote := 1, effects := effects example_client @ [Invoke]\<rparr>) =
     (Inr (), example_client\<lparr>remote := 1, effects := [Invoke, RefreshToken], twitterClient := ''client-1'',
         static_twitterClient := Some ''client-1'', twitterAccessToken := Some ''access-1'',
         twitterRefreshToken := Some ''refresh-1''\<rparr>)"
    by (simp add: refreshTwitterToken_def example_collab_def example_client_def)
  have 4: "expired_once (twitterClient (example_client\<lparr>remote := 1, effects := [Invoke, RefreshToken], twitterClient := ''client-1'',
         static_twitterClient := Some ''client-1'', twitterAccessToken := Some ''access-1'',
         twitterRefreshToken := Some ''refresh-1''\<rparr>)) (remote (example_client\<lparr>remote := 1, effects := [Invoke, RefreshToken], twitterClient := ''client-1'',
         static_twitterClient := Some ''client-1'', twitterAccessToken := Some ''access-1'',
         twitterRefreshToken := Some ''refresh-1''\<rparr>)) = (Inr 7, 2)"
    by (simp add: expired_once_def)
  have 5: "refreshTwitterToken (example_collab\<lparr>getTwitterRefreshToken := \<lambda>agent w. (Inl database_down, w)\<rparr>)
       (example_client\<lparr>remote := 1, effects := effects example_client @ [Invoke]\<rparr>) =
     (Inl database_down, example_client\<lparr>remote := 1, effects := [Invoke, RefreshToken]\<rparr>)"
    by (simp add: refreshTwitterToken_def example_client_def)
  have 6: "expired_once (twitterClient (example_client\<lparr>remote := 1, effects := [Invoke, RefreshToken]\<rparr>))
       (remote (example_client\<lparr>remote := 1, effects := [Invoke, RefreshToken]\<rparr>)) = (Inr 7, 2)"
    by (simp add: expired_once_def)
  have a: "executeWithTokenRefresh example_collab expired_once example_client =
      (Inr 7, example_client\<lparr>remote := 1, effects := [Invoke, RefreshToken], twitterClient := ''client-1'',
         static_twitterClient := Some ''client-1'', twitterAccessToken := Some ''access-1'',
         twitterRefreshToken := Some ''refresh-1'', remote := 2,
         effects := effects example_client @ [Invoke, RefreshToken, Invoke]\<rparr>)"
    using refresh_once[OF 1 ce_unauth 3 4] by blast
  have b: "executeWithTokenRefresh (example_collab\<lparr>getTwitterRefreshToken := \<lambda>agent w. (Inl database_down, w)\<rparr>)
     expired_once example_client =
     (Inl database_down, example_client\<lparr>remote := 1, effects := [Invoke, RefreshToken]\<rparr>)"
    using refresh_once[OF 1 ce_unauth 5 6] by blast
  show ?thesis unfolding a b by (simp add: example_client_def)
qed

text \<open>
  Claim C4 as stated fails when the refresh itself fails: the operation would succeed at
  a second invocation, but the error of the refresh is thrown and the operation is not
  invoked again.
\<close>

theorem refresh_once_counterexample:
  "credential_expired unauthorized \<and>
   expired_once ''client-0'' 0 = (Inl unauthorized, 1) \<and>
   expired_once ''client-0'' 1 = (Inr 7, 2) \<and>
   fst (executeWithTokenRefresh (example_collab\<lparr>getTwitterRefreshToken := \<lambda>agent w. (Inl database_down, w)\<rparr>)
          expired_once example_client) = Inl database_down \<and>
   effects (snd (executeWithTokenRefresh (example_collab\<lparr>getTwitterRefreshToken := \<lambda>agent w. (Inl database_down, w)\<rparr>)
          expired_once example_client)) = [Invoke, RefreshToken]"
  by (simp add: executeWithTokenRefresh_def invoke_def refreshTwitterToken_def credential_expired_def
      unauthorized_def expired_once_def example_client_def example_collab_def)

text \<open>
  Claim C5, amended. When the first invocation fails with an error that is not
  credential-expired: if its code is 429, the call sleeps 90001000 milliseconds (25
  hours and one second, whatever the error says), invokes the operation once more and
  returns that outcome \<open>r\<close>, value or error; otherwise the error is thrown as it is, with
  no sleep and no second invocation.
\<close>

theorem rate_limit_cooldown:
  assumes "operation (twitterClient s) (remote s) = (Inl e, w1)"
    and "\<not> credential_expired e"
    and "operation (twitterClient s) w1 = (r, w2)"
  shows "(rate_limited e \<longrightarrow>
            executeWithTokenRefresh X operation s =
              (r, s\<lparr>remote := w2, effects := effects s @ [Invoke, Sleep 90001000, Invoke]\<rparr>)) \<and>
         (\<not> rate_limited e \<longrightarrow>
            executeWithTokenRefresh X operation s =
              (Inl e, s\<lparr>remote := w1, effects := effects s @ [Invoke]\<rparr>))"
  using assms by (simp add: executeWithTokenRefresh_def invoke_def sleep_def)

theorem rate_limit_cooldown_witness:
  "executeWithTokenRefresh example_collab (limited_once too_many_requests) example_client =
     (Inr 7, example_client\<lparr>remote := 2, effects := [Invoke, Sleep 90001000, Invoke]\<rparr>) \<and>
   executeWithTokenRefresh example_collab (limited_once database_down) example_client =
     (Inl database_down, example_client\<lparr>remote := 1, effects := [Invoke]\<rparr>)"
proof -
  have a: "limited_once e (twitterClient example_client) (remote example_client) = (Inl e, 1)" for e
    by (simp add: limited_once_def example_client_def)
  have b: "limited_once e (twitterClient example_client) 1 = (Inr 7, 2)" for e
    by (simp add: limited_once_def)
  have c: "\<not> credential_expired too_many_requests" "rate_limited too_many_requests"
    "\<not> credential_expired database_down" "\<not> rate_limited database_down"
    by (simp_all add: credential_expired_def rate_limited_def too_many_requests_def database_down_def)
  show ?thesis
    using rate_limit_cooldown[where operation = "limited_once too_many_requests" and s = example_client
          and X = example_collab, OF a c(1) b]
      rate_limit_cooldown[where operation = "limited_once database_down" and s = example_client
          and X = example_collab, OF a c(3) b] c
    by (simp add: example_client_def)
qed

text \<open>
  Claim C5 as stated fails for an error with code 429 whose message contains
  \<^verbatim>\<open>token\<close>: the first test wins, so the tokens are refreshed and there is no sleep.
\<close>

theorem rate_limit_cooldown_counterexample:
  "rate_limited bucket_exhausted \<and>
   limited_once bucket_exhausted ''client-0'' 0 = (Inl bucket_exhausted, 1) \<and>
   fst (executeWithTokenRefresh example_collab (limited_once bucket_exhausted) example_client) = Inr 7 \<and>
   effects (snd (executeWithTokenRefresh example_collab (limited_once bucket_exhausted) example_client)) =
     [Invoke, RefreshToken, Invoke]"
  by (simp add: executeWithTokenRefresh_def invoke_def refreshTwitterToken_def credential_expired_def
      rate_limited_def bucket_exhausted_def limited_once_def example_client_def example_collab_def)

section \<open>ClientBase: proofs about the tweet cache\<close>

text \<open>
  Claim C10. \<^verbatim>\<open>cacheTweet\<close> of an undefined or null tweet returns without an error and
  leaves the whole state as it was: no file, no directory, no entry in the map.
\<close>

theorem cacheTweet_undefined: "cacheTweet X None s = (Inr (), s)"
  by (simp add: cacheTweet_def)
















































section \<open>ClientBase: proofs about the timeline\<close>

lemma example_collab_timeline:
  "stringToUuid example_collab = (\<lambda>x. x)"
  "search example_collab = (\<lambda>client query maxTweets n.
         (Inr \<lparr>found = (if n = 0 then [found_tweet ''100'']
                         else [found_tweet ''100'', found_tweet ''101'', found_tweet ''102'']),
                found_users = None\<rparr>, Suc n))"
  by (simp_all add: example_collab_def)

lemma found_mention: "tweet_of_search None (found_tweet i) = mention i"
  by (simp add: tweet_of_search_def found_tweet_def mention_def js_or_def)

lemma mention_fields:
  "tweet_id (mention i) = i"
  "conversationId (mention i) = Some i"
  by (simp_all add: mention_def)

lemma mention_memory_fields:
  "m_id (mention_memory i) = i @ ''-agent''"
  "m_roomId (mention_memory i) = i"
  "m_agentId (mention_memory i) = ''agent''"
  by (simp_all add: mention_memory_def)

lemma save_mention:
  "agentId s = ''agent'' \<Longrightarrow> twitterUserId s = Some ''1'' \<Longrightarrow>
   save_new_tweet example_collab (mention i) s =
     createMemory (mention_memory i) (ensureConnection ''7'' i None None s)"
  by (simp add: save_new_tweet_def example_collab_timeline mention_def mention_memory_def
      ensureConnection_def Let_def)

lemma existing_tweet_is_saved_again:
  "tweets_to_save example_collab ''agent'' [mention_memory ''100'']
     [mention ''100'', mention ''101'', mention ''102''] =
   [mention ''100'', mention ''101'', mention ''102'']"
  "tweets_to_save example_collab ''agent''
     [mention_memory ''100'', mention_memory ''101'', mention_memory ''102'']
     [mention ''100'', mention ''101'', mention ''102''] =
   [mention ''100'', mention ''101'', mention ''102'']"
  "tweets_to_save example_collab ''agent'' [] [mention ''100''] = [mention ''100'']"
  by (simp_all add: tweets_to_save_def getMemoriesByRoomIds_def example_collab_timeline mention_def
      mention_memory_def)

lemmas timeline_defs = populateTimeline_def populate_from_search_def fetchSearchTweets_def
  executeWithTokenRefresh_def invoke_def search_tweets_def found_mention
  getMemoriesByRoomIds_def getMemoryById_def createMemory_def ensureConnection_def
  ensureUserExists_def save_mention undefined_str_def null_str_def
  example_collab_timeline existing_tweet_is_saved_again mention_memory_fields mention_fields Let_def

lemma first_populate:
  "populateTimeline example_collab example_client =
     (Inr (), example_client\<lparr>remote := Suc 0, memories := [mention_memory ''100''],
        timeline_cache := Some [mention ''100''],
        effects := [Invoke, EnsureUserExists ''agent'' (Some ''bot''),
                    EnsureConnection ''7'' ''100'' None None, CreateMemory (mention_memory ''100'')]\<rparr>)"
  by (simp add: timeline_defs example_client_def)

lemma second_populate:
  "populateTimeline example_collab (snd (populateTimeline example_collab example_client)) =
     (Inr (), example_client\<lparr>remote := Suc (Suc 0),
        memories := [mention_memory ''100'', mention_memory ''101'', mention_memory ''102''],
        timeline_cache := Some [mention ''100'', mention ''101'', mention ''102''],
        effects := [Invoke, EnsureUserExists ''agent'' (Some ''bot''),
                    EnsureConnection ''7'' ''100'' None None, CreateMemory (mention_memory ''100''),
                    Invoke, EnsureUserExists ''agent'' (Some ''bot''),
                    EnsureConnection ''7'' ''100'' None None, CreateMemory (mention_memory ''100''),
                    EnsureConnection ''7'' ''101'' None None, CreateMemory (mention_memory ''101''),
                    EnsureConnection ''7'' ''102'' None None, CreateMemory (mention_memory ''102'')]\<rparr>)"
  unfolding first_populate
  by (simp add: timeline_defs example_client_def)

lemma third_populate:
  "created (effects (snd (populateTimeline example_collab
      (snd (populateTimeline example_collab (snd (populateTimeline example_collab example_client))))))) =
   [''100-agent'', ''100-agent'', ''101-agent'', ''102-agent'', ''100-agent'', ''101-agent'', ''102-agent'']"
  unfolding second_populate
  by (simp add: timeline_defs example_client_def)

text \<open>
  Claim C8. \<^verbatim>\<open>populateTimeline\<close> runs three times. The first run finds tweet 100 and stores
  its record, under the id made of the tweet's id and the agent's id. The second run
  finds tweets 100, 101 and 102: the store is asked for the records whose \<^emph>\<open>room\<close> is one
  of the three composite ids, and no room is, so all three tweets are to be saved and
  \<^verbatim>\<open>createMemory\<close> is called for tweet 100 again. The third run, with all three records
  stored, calls \<^verbatim>\<open>createMemory\<close> for all three once more.
\<close>

theorem existing_tweet_is_ingested_again:
  "map m_id (memories (snd (populateTimeline example_collab example_client))) = [''100-agent''] \<and>
   tweets_to_save example_collab ''agent'' (memories (snd (populateTimeline example_collab example_client)))
     [mention ''100'', mention ''101'', mention ''102''] =
     [mention ''100'', mention ''101'', mention ''102''] \<and>
   created (effects (snd (populateTimeline example_collab (snd (populateTimeline example_collab example_client))))) =
     [''100-agent'', ''100-agent'', ''101-agent'', ''102-agent''] \<and>
   created (effects (snd (populateTimeline example_collab
      (snd (populateTimeline example_collab (snd (populateTimeline example_collab example_client))))))) =
     [''100-agent'', ''100-agent'', ''101-agent'', ''102-agent'', ''100-agent'', ''101-agent'', ''102-agent'']"
proof -
  have a: "map m_id (memories (snd (populateTimeline example_collab example_client))) = [''100-agent'']"
    unfolding first_populate by (simp add: mention_memory_fields)
  have b: "tweets_to_save example_collab ''agent'' (memories (snd (populateTimeline example_collab example_client)))
     [mention ''100'', mention ''101'', mention ''102''] =
     [mention ''100'', mention ''101'', mention ''102'']"
    unfolding first_populate by (simp add: existing_tweet_is_saved_again)
  have c: "created (effects (snd (populateTimeline example_collab (snd (populateTimeline example_collab example_client))))) =
     [''100-agent'', ''100-agent'', ''101-agent'', ''102-agent'']"
    unfolding second_populate by (simp add: mention_memory_fields)
  show ?thesis using a b c third_populate by blast
qed

text \<open>
  Whatever ids the stored records have, every tweet of the batch is to be saved when no
  stored record has a composite id as its room.
\<close>

lemma tweets_to_save_by_room:
  assumes "\<forall>m \<in> set ms. \<forall>tweet \<in> set allTweets. m_roomId m \<noteq> stringToUuid X (tweet_id tweet @ ''-'' @ agent)"
  shows "tweets_to_save X agent ms allTweets = allTweets"
  unfolding tweets_to_save_def Let_def
proof (rule filter_True, rule ballI)
  fix tweet
  assume t: "tweet \<in> set allTweets"
  show "stringToUuid X (tweet_id tweet @ ''-'' @ agent) \<notin>
          set (map m_roomId (getMemoriesByRoomIds agent
            (map (\<lambda>i. stringToUuid X (i @ ''-'' @ agent)) (set_add_all [] (map tweet_id allTweets))) ms))"
  proof
    assume "stringToUuid X (tweet_id tweet @ ''-'' @ agent) \<in>
          set (map m_roomId (getMemoriesByRoomIds agent
            (map (\<lambda>i. stringToUuid X (i @ ''-'' @ agent)) (set_add_all [] (map tweet_id allTweets))) ms))"
    then obtain m where "m \<in> set ms" "m_roomId m = stringToUuid X (tweet_id tweet @ ''-'' @ agent)"
      unfolding getMemoriesByRoomIds_def by auto
    then show False using assms t by blast
  qed
qed











end
